theory Spec2Isabelle
  imports
    Complex_Main
    "HOL-Library.Word"
    "HOL-Library.Option_ord"
    "HOL-Library.Product_Lexorder"
    "HOL-Library.Multiset"
begin

section \<open>The data frames of etl.py\<close>

text \<open>
  The program is a PySpark job. A data frame is modelled as the list of its rows, in the
  order in which the engine hands them to the next operator. Spark fixes no such order:
  two runs over the same stored input are two lists with the same rows, possibly in a
  different order. A nullable column of type T is a \<open>T option\<close>, \<open>None\<close> being SQL
  null. Columns of DoubleType are only copied and compared by the program, never
  computed with; they are modelled as \<open>real\<close>. The integer columns are modelled as
  \<open>int\<close>: the program compares them and hands \<open>ts\<close> to pandas, whose range is the
  narrower one.

  \<open>RawSongSchema\<close> and \<open>RawLogSchema\<close> are the two records below, with the columns in
  the order of the source. The columns \<open>length\<close> and \<open>method\<close> of the log schema are
  named \<open>length_col\<close> and \<open>method_col\<close>.
\<close>

record raw_song =
  artist_id :: "string option"
  artist_latitude :: "real option"
  artist_location :: "string option"
  artist_longitude :: "real option"
  artist_name :: "string option"
  duration :: "real option"
  num_songs :: "int option"
  song_id :: "string option"
  title :: "string option"
  year :: "int option"

record raw_log =
  artist :: "string option"
  auth :: "string option"
  firstName :: "string option"
  gender :: "string option"
  itemInSession :: "int option"
  lastName :: "string option"
  length_col :: "real option"
  level :: "string option"
  location :: "string option"
  method_col :: "string option"
  page :: "string option"
  registration :: "real option"
  sessionId :: "int option"
  song :: "string option"
  status :: "int option"
  ts :: "int option"
  userAgent :: "string option"
  userId :: "string option"

text \<open>The rows of the five tables the job writes, and of the ranked frame of line 119.\<close>

record song_row =
  s_song_id :: "string option"
  s_title :: "string option"
  s_artist_id :: "string option"
  s_year :: "int option"
  s_duration :: "real option"

record artist_row =
  a_artist_id :: "string option"
  a_name :: "string option"
  a_location :: "string option"
  a_latitude :: "real option"
  a_longitude :: "real option"

record ranked_row =
  r_userId :: "string option"
  r_firstName :: "string option"
  r_lastName :: "string option"
  r_gender :: "string option"
  r_level :: "string option"
  r_ts :: "int option"
  ts_rank :: nat

record user_row =
  u_user_id :: "string option"
  u_first_name :: "string option"
  u_last_name :: "string option"
  u_gender :: "string option"
  u_level :: "string option"

section \<open>process_song_data\<close>

text \<open>
  \<open>dropDuplicates()\<close> without a column list keeps one row of every class of rows equal
  in all columns.
\<close>

definition dropDuplicates :: "'a list \<Rightarrow> 'a list" where
  "dropDuplicates rows = remdups rows"

definition select_song :: "raw_song \<Rightarrow> song_row" where
  "select_song r =
     \<lparr>s_song_id = song_id r, s_title = title r, s_artist_id = artist_id r,
      s_year = year r, s_duration = duration r\<rparr>"

definition songs_table :: "raw_song list \<Rightarrow> song_row list" where
  "songs_table df =
     dropDuplicates (filter (\<lambda>s. s_song_id s \<noteq> None) (map select_song df))"

definition select_artist :: "raw_song \<Rightarrow> artist_row" where
  "select_artist r =
     \<lparr>a_artist_id = artist_id r, a_name = artist_name r, a_location = artist_location r,
      a_latitude = artist_latitude r, a_longitude = artist_longitude r\<rparr>"

definition artists_table :: "raw_song list \<Rightarrow> artist_row list" where
  "artists_table df =
     dropDuplicates (filter (\<lambda>a. a_artist_id a \<noteq> None) (map select_artist df))"

section \<open>process_log_data: the users table\<close>

definition where_NextSong :: "raw_log list \<Rightarrow> raw_log list" where
  "where_NextSong df = filter (\<lambda>r. page r = Some ''NextSong'') df"

text \<open>
  \<open>Window.partitionBy("userId")\<close> puts the rows of equal \<open>userId\<close> into one partition,
  the rows of null \<open>userId\<close> into a partition of their own.
\<close>

definition partitionBy_userId :: "raw_log list \<Rightarrow> raw_log list list" where
  "partitionBy_userId df =
     map (\<lambda>k. filter (\<lambda>r. userId r = k) df) (remdups (map userId df))"

text \<open>
  \<open>orderBy(col("ts").desc())\<close>: greater \<open>ts\<close> first, nulls last (Spark's default for a
  descending sort). The sort key below is least for the row that comes first. Rows of
  equal \<open>ts\<close> stay in the order in which they reached the operator.
\<close>

definition ts_desc_key :: "int option \<Rightarrow> nat \<times> int" where
  "ts_desc_key t = (case t of None \<Rightarrow> (1, 0) | Some v \<Rightarrow> (0, - v))"

definition orderBy_ts_desc :: "raw_log list \<Rightarrow> raw_log list" where
  "orderBy_ts_desc p = sort_key (\<lambda>r. ts_desc_key (ts r)) p"

definition select_ranked :: "raw_log \<Rightarrow> nat \<Rightarrow> ranked_row" where
  "select_ranked r n =
     \<lparr>r_userId = userId r, r_firstName = firstName r, r_lastName = lastName r,
      r_gender = gender r, r_level = level r, r_ts = ts r, ts_rank = n\<rparr>"

definition row_number :: "raw_log list \<Rightarrow> ranked_row list" where
  "row_number p =
     map (\<lambda>(r, n). select_ranked r n) (zip (orderBy_ts_desc p) [1 ..< Suc (length p)])"

definition users_ranked :: "raw_log list \<Rightarrow> ranked_row list" where
  "users_ranked df =
     filter (\<lambda>r. r_userId r \<noteq> None) (concat (map row_number (partitionBy_userId df)))"

definition selectExpr_user :: "ranked_row \<Rightarrow> user_row" where
  "selectExpr_user r =
     \<lparr>u_user_id = r_userId r, u_first_name = r_firstName r, u_last_name = r_lastName r,
      u_gender = r_gender r, u_level = r_level r\<rparr>"

definition users_table :: "raw_log list \<Rightarrow> user_row list" where
  "users_table df = map selectExpr_user (filter (\<lambda>r. ts_rank r = 1) (users_ranked df))"

text \<open>
  The user extraction in the words of the specification: the rows of null \<open>user_id\<close> are
  dropped before the ranking, not after it.
\<close>

definition users_table_prefiltered :: "raw_log list \<Rightarrow> user_row list" where
  "users_table_prefiltered df =
     map selectExpr_user
       (filter (\<lambda>r. ts_rank r = 1)
         (concat (map row_number (partitionBy_userId (filter (\<lambda>r. userId r \<noteq> None) df)))))"

section \<open>process_log_data: the time table\<close>

text \<open>
  A timestamp is the number of milliseconds between 1970-01-01 00:00:00 and its
  wall-clock reading. \<open>pd.to_datetime(x, unit='ms')\<close> yields the reading of \<open>x\<close> in UTC
  and raises \<open>OutOfBoundsDatetime\<close> outside the range of a 64-bit count of nanoseconds.
  The conversion of the udf's result to a Spark timestamp and the SQL functions
  \<open>hour\<close>, \<open>dayofmonth\<close>, ... use one and the same time zone, so the calendar fields of
  \<open>start_time\<close> are those of the reading.
\<close>

datatype py_error = OutOfBoundsDatetime

definition to_datetime :: "int \<Rightarrow> py_error + int" where
  "to_datetime x =
     (if - 9223372036854 \<le> x \<and> x \<le> 9223372036854 then Inr x else Inl OutOfBoundsDatetime)"

text \<open>The udf: \<open>if x:\<close> is false for \<open>None\<close> and for the integer \<open>0\<close>.\<close>

definition get_timestamp :: "int option \<Rightarrow> py_error + int option" where
  "get_timestamp x =
     (if x \<noteq> None \<and> x \<noteq> Some 0
      then (case to_datetime (the x) of Inl e \<Rightarrow> Inl e | Inr t \<Rightarrow> Inr (Some t))
      else Inr None)"

record log_ts = raw_log +
  start_time :: "int option"

definition withColumn_start_time :: "raw_log \<Rightarrow> py_error + log_ts" where
  "withColumn_start_time r =
     (case get_timestamp (ts r) of
        Inl e \<Rightarrow> Inl e
      | Inr t \<Rightarrow> Inr (raw_log.extend r (log_ts.fields t)))"

text \<open>A column computed row by row; the first row on which the udf raises fails the job.\<close>

fun each_row :: "('a \<Rightarrow> 'e + 'b) \<Rightarrow> 'a list \<Rightarrow> 'e + 'b list" where
  "each_row f [] = Inr []"
| "each_row f (r # rs) =
     (case f r of
        Inl e \<Rightarrow> Inl e
      | Inr v \<Rightarrow> (case each_row f rs of Inl e \<Rightarrow> Inl e | Inr vs \<Rightarrow> Inr (v # vs)))"

text \<open>
  The calendar functions of Spark SQL on the proleptic Gregorian calendar: the day
  number since 1970-01-01, the civil date of a day number and back, the ISO week.
\<close>

definition epoch_day :: "int \<Rightarrow> int" where
  "epoch_day t = t div 86400000"

definition civil_from_days :: "int \<Rightarrow> int \<times> int \<times> int" where
  "civil_from_days z =
     (let z1 = z + 719468;
          era = z1 div 146097;
          doe = z1 - era * 146097;
          yoe = (doe - doe div 1460 + doe div 36524 - doe div 146096) div 365;
          doy = doe - (365 * yoe + yoe div 4 - yoe div 100);
          mp = (5 * doy + 2) div 153;
          d = doy - (153 * mp + 2) div 5 + 1;
          m = (if mp < 10 then mp + 3 else mp - 9);
          y = yoe + era * 400
      in (if m \<le> 2 then y + 1 else y, m, d))"

definition days_from_civil :: "int \<Rightarrow> int \<Rightarrow> int \<Rightarrow> int" where
  "days_from_civil y m d =
     (let y1 = (if m \<le> 2 then y - 1 else y);
          era = y1 div 400;
          yoe = y1 - era * 400;
          doy = (153 * (if 2 < m then m - 3 else m + 9) + 2) div 5 + d - 1;
          doe = yoe * 365 + yoe div 4 - yoe div 100 + doy
      in era * 146097 + doe - 719468)"

definition sql_hour :: "int \<Rightarrow> int" where
  "sql_hour t = (t mod 86400000) div 3600000"

definition sql_year :: "int \<Rightarrow> int" where
  "sql_year t = fst (civil_from_days (epoch_day t))"

definition sql_month :: "int \<Rightarrow> int" where
  "sql_month t = fst (snd (civil_from_days (epoch_day t)))"

definition sql_dayofmonth :: "int \<Rightarrow> int" where
  "sql_dayofmonth t = snd (snd (civil_from_days (epoch_day t)))"

text \<open>ISO 8601: the week of a day is the week of the Thursday of its Monday-based week.\<close>

definition sql_weekofyear :: "int \<Rightarrow> int" where
  "sql_weekofyear t =
     (let n = epoch_day t;
          thursday = n - (n + 3) mod 7 + 3
      in (thursday - days_from_civil (fst (civil_from_days thursday)) 1 1) div 7 + 1)"

text \<open>\<open>date_format(start_time, 'E')\<close>: the abbreviated day name; 1970-01-01 was a Thursday.\<close>

definition date_format_E :: "int \<Rightarrow> string" where
  "date_format_E t =
     [''Thu'', ''Fri'', ''Sat'', ''Sun'', ''Mon'', ''Tue'', ''Wed''] ! nat (epoch_day t mod 7)"

record time_row =
  t_start_time :: int
  t_hour :: int
  t_day :: int
  t_week :: int
  t_month :: int
  t_year :: int
  t_weekday :: string

definition select_time :: "int \<Rightarrow> time_row" where
  "select_time t =
     \<lparr>t_start_time = t, t_hour = sql_hour t, t_day = sql_dayofmonth t,
      t_week = sql_weekofyear t, t_month = sql_month t, t_year = sql_year t,
      t_weekday = date_format_E t\<rparr>"

definition time_query :: "log_ts list \<Rightarrow> time_row list" where
  "time_query log_raw =
     dropDuplicates
       (concat (map (\<lambda>r. case start_time r of None \<Rightarrow> [] | Some t \<Rightarrow> [select_time t]) log_raw))"

definition time_table :: "raw_log list \<Rightarrow> py_error + time_row list" where
  "time_table df =
     (case each_row withColumn_start_time df of
        Inl e \<Rightarrow> Inl e
      | Inr log_raw \<Rightarrow> Inr (time_query log_raw))"

section \<open>process_log_data: the songplays table\<close>

text \<open>
  \<open>monotonically_increasing_id()\<close> is a 64-bit integer: the index of the row's physical
  partition shifted left by 33 bits, plus the number of the row within its partition,
  counted from 0. The frame that receives the column is therefore modelled as the list
  of its partitions.
\<close>

record log_id = log_ts +
  songplay_id :: "64 word"

definition monotonically_increasing_id :: "nat \<Rightarrow> nat \<Rightarrow> 64 word" where
  "monotonically_increasing_id p i = push_bit 33 (word_of_nat p) + word_of_nat i"

definition withColumn_songplay_id :: "log_ts list list \<Rightarrow> log_id list" where
  "withColumn_songplay_id parts =
     concat (map (\<lambda>(p, rows).
         map (\<lambda>(i, r). log_ts.extend r (log_id.fields (monotonically_increasing_id p i)))
           (enumerate 0 rows))
       (enumerate 0 parts))"

text \<open>
  A left join keeps every row of its left side: once with each matching row of the right
  side, or once with nulls when no row matches. The SQL comparison \<open>x = y\<close> of an \<open>on\<close>
  clause is true only when both sides are non-null and equal.
\<close>

definition sql_eq :: "'a option \<Rightarrow> 'a option \<Rightarrow> bool" where
  "sql_eq x y = (x \<noteq> None \<and> x = y)"

definition left_join :: "('a \<Rightarrow> 'b \<Rightarrow> bool) \<Rightarrow> 'a list \<Rightarrow> 'b list \<Rightarrow> ('a \<times> 'b option) list" where
  "left_join on l r =
     concat (map (\<lambda>a. case filter (on a) r of
                         [] \<Rightarrow> [(a, None)]
                       | m # ms \<Rightarrow> map (\<lambda>b. (a, Some b)) (m # ms)) l)"

record songplay_row =
  sp_songplay_id :: "64 word"
  sp_start_time :: "int option"
  sp_song_id :: "string option"
  sp_artist_id :: "string option"
  sp_user_id :: "string option"
  sp_session_id :: "int option"
  sp_location :: "string option"
  sp_level :: "string option"
  sp_user_agent :: "string option"

definition select_songplay :: "(log_id \<times> song_row option) \<times> artist_row option \<Rightarrow> songplay_row" where
  "select_songplay j =
     (case j of ((a, b), c) \<Rightarrow>
        \<lparr>sp_songplay_id = songplay_id a, sp_start_time = start_time a,
         sp_song_id = Option.bind b s_song_id, sp_artist_id = Option.bind c a_artist_id,
         sp_user_id = userId a, sp_session_id = sessionId a, sp_location = location a,
         sp_level = level a, sp_user_agent = userAgent a\<rparr>)"

definition songplays_query :: "log_id list \<Rightarrow> song_row list \<Rightarrow> artist_row list \<Rightarrow> songplay_row list" where
  "songplays_query log_raw songs artists =
     dropDuplicates (map select_songplay
       (left_join (\<lambda>(a, b) c. sql_eq (artist a) (a_name c))
         (left_join (\<lambda>a b. sql_eq (song a) (s_title b)) log_raw songs)
         artists))"

text \<open>
  The frame \<open>df\<close> of line 116 with its physical partitions (a \<open>where\<close> keeps the
  partitions of its input), and the songplays table built from it and from the song and
  artist tables read back from the output directory.
\<close>

definition songplays_table ::
    "raw_log list list \<Rightarrow> song_row list \<Rightarrow> artist_row list \<Rightarrow> py_error + songplay_row list" where
  "songplays_table df song_df artists_df =
     (case each_row (each_row withColumn_start_time) df of
        Inl e \<Rightarrow> Inl e
      | Inr parts \<Rightarrow> Inr (songplays_query (withColumn_songplay_id parts) song_df artists_df))"

text \<open>
  The three tables of \<open>process_log_data\<close> for the partitions of the log frame as read.
  The users table is written before the udf runs; the other two need the udf on every
  row of \<open>df\<close>.
\<close>

definition log_users :: "raw_log list list \<Rightarrow> user_row list" where
  "log_users log_data = users_table (concat (map where_NextSong log_data))"

definition log_time :: "raw_log list list \<Rightarrow> py_error + time_row list" where
  "log_time log_data = time_table (concat (map where_NextSong log_data))"

definition log_songplays ::
    "raw_log list list \<Rightarrow> song_row list \<Rightarrow> artist_row list \<Rightarrow> py_error + songplay_row list" where
  "log_songplays log_data song_df artists_df =
     songplays_table (map where_NextSong log_data) song_df artists_df"

text \<open>
  \<open>main\<close>: the song and artist tables written by \<open>process_song_data\<close> are the ones
  \<open>process_log_data\<close> reads back. Reading a table back from Parquet, its partition
  columns restored from the directory names, is taken to return the rows written.
\<close>

definition main_songplays :: "raw_song list \<Rightarrow> raw_log list list \<Rightarrow> py_error + songplay_row list" where
  "main_songplays song_data log_data =
     log_songplays log_data (songs_table song_data) (artists_table song_data)"

section \<open>Inputs of the examples\<close>

text \<open>
  A catalog record and a log row with every column null, a log row with
  \<open>page = 'NextSong'\<close> and given \<open>userId\<close>, \<open>ts\<close> and \<open>level\<close>, and the inputs and
  tables of the examples below.
\<close>

definition null_song :: raw_song where
  "null_song =
     \<lparr>artist_id = None, artist_latitude = None, artist_location = None,
      artist_longitude = None, artist_name = None, duration = None, num_songs = None,
      song_id = None, title = None, year = None\<rparr>"

definition null_log :: raw_log where
  "null_log =
     \<lparr>artist = None, auth = None, firstName = None, gender = None, itemInSession = None,
      lastName = None, length_col = None, level = None, location = None,
      method_col = None, page = None, registration = None, sessionId = None,
      song = None, status = None, ts = None, userAgent = None, userId = None\<rparr>"

definition next_song :: "string \<Rightarrow> int \<Rightarrow> string \<Rightarrow> raw_log" where
  "next_song u t l =
     null_log\<lparr>page := Some ''NextSong'', userId := Some u, ts := Some t, level := Some l\<rparr>"

definition song_a :: raw_song where
  "song_a = null_song\<lparr>artist_id := Some ''AR1'', artist_name := Some ''N1'',
                       song_id := Some ''S1'', title := Some ''A''\<rparr>"

definition song_b :: raw_song where
  "song_b = null_song\<lparr>artist_id := Some ''AR1'', artist_name := Some ''N2'',
                       song_id := Some ''S1'', title := Some ''B''\<rparr>"

definition plays_u :: "raw_log list" where
  "plays_u = [next_song ''u1'' 100 ''free'', next_song ''u1'' 300 ''paid'',
              next_song ''u1'' 200 ''free'']"




definition null_user_play :: raw_log where
  "null_user_play = null_log\<lparr>page := Some ''NextSong'', ts := Some 999, level := Some ''free''\<rparr>"

definition ts_play :: raw_log where
  "ts_play = next_song ''u1'' 1541105830796 ''free''"

definition zero_play :: raw_log where
  "zero_play = next_song ''u1'' 0 ''free''"

definition far_play :: raw_log where
  "far_play = next_song ''u1'' 9223372036855 ''free''"

definition fan_songs :: "raw_song list" where
  "fan_songs =
     [null_song\<lparr>artist_id := Some ''AR1'', artist_name := Some ''N'',
                 song_id := Some ''S1'', title := Some ''T''\<rparr>,
      null_song\<lparr>artist_id := Some ''AR1'', artist_name := Some ''N'',
                 song_id := Some ''S2'', title := Some ''T''\<rparr>]"

definition fan_play :: raw_log where
  "fan_play = (next_song ''u1'' 100 ''free'')\<lparr>artist := Some ''N'', song := Some ''T''\<rparr>"

definition miss_play :: raw_log where
  "miss_play = (next_song ''u2'' 200 ''paid'')\<lparr>artist := Some ''Y'', song := Some ''X''\<rparr>"

definition play_row :: "64 word \<Rightarrow> int \<Rightarrow> string option \<Rightarrow> string option \<Rightarrow> string \<Rightarrow> string \<Rightarrow> songplay_row" where
  "play_row i t s a u l =
     \<lparr>sp_songplay_id = i, sp_start_time = Some t, sp_song_id = s, sp_artist_id = a,
      sp_user_id = Some u, sp_session_id = None, sp_location = None, sp_level = Some l,
      sp_user_agent = None\<rparr>"

definition fan_log :: "raw_log list list" where
  "fan_log = [[fan_play], [miss_play, null_log]]"

definition fan_rows :: "songplay_row list" where
  "fan_rows =
     [play_row 0 100 (Some ''S1'') (Some ''AR1'') ''u1'' ''free'',
      play_row 0 100 (Some ''S2'') (Some ''AR1'') ''u1'' ''free'',
      play_row 8589934592 200 None None ''u2'' ''paid'']"

section \<open>Notions for the statements\<close>

text \<open>
  Two notions used to state the properties of the users table: the user columns of a log
  row, and the row that comes first when the partition of a user is sorted.
\<close>

definition user_of :: "raw_log \<Rightarrow> user_row" where
  "user_of r =
     \<lparr>u_user_id = userId r, u_first_name = firstName r, u_last_name = lastName r,
      u_gender = gender r, u_level = level r\<rparr>"

definition top_row :: "raw_log list \<Rightarrow> string option \<Rightarrow> raw_log" where
  "top_row df k = hd (orderBy_ts_desc (filter (\<lambda>r. userId r = k) df))"

text \<open>
  Notions used to state the properties of the songplays table: the rows on which the udf
  does not raise, and a log row with its \<open>start_time\<close> column.
\<close>

definition udf_ok :: "raw_log \<Rightarrow> bool" where
  "udf_ok r = (case ts r of None \<Rightarrow> True | Some t \<Rightarrow> - 9223372036854 \<le> t \<and> t \<le> 9223372036854)"

definition with_start_time :: "raw_log \<Rightarrow> log_ts" where
  "with_start_time r =
     raw_log.extend r
       (log_ts.fields (case ts r of None \<Rightarrow> None | Some t \<Rightarrow> if t = 0 then None else Some t))"

section \<open>Song and artist tables: whole-row deduplication\<close>

lemma set_songs_table:
  "set (songs_table df) = select_song ` {r \<in> set df. song_id r \<noteq> None}"
  by (auto simp: songs_table_def dropDuplicates_def select_song_def)

lemma set_artists_table:
  "set (artists_table df) = select_artist ` {r \<in> set df. artist_id r \<noteq> None}"
  by (auto simp: artists_table_def dropDuplicates_def select_artist_def)

lemma distinct_songs_table: "distinct (songs_table df)"
  by (simp add: songs_table_def dropDuplicates_def)

lemma distinct_artists_table: "distinct (artists_table df)"
  by (simp add: artists_table_def dropDuplicates_def)

lemma key_of_select:
  "s_song_id (select_song r) = song_id r" "a_artist_id (select_artist r) = artist_id r"
  by (simp_all add: select_song_def select_artist_def)

lemma ex_rows:
  "select_song song_a \<noteq> select_song song_b" "select_artist song_a \<noteq> select_artist song_b"
  "select_song song_b \<noteq> select_song song_a" "select_artist song_b \<noteq> select_artist song_a"
  "song_id song_a = Some ''S1''" "song_id song_b = Some ''S1''"
  "artist_id song_a = Some ''AR1''" "artist_id song_b = Some ''AR1''"
  by (simp_all add: song_a_def song_b_def null_song_def select_song_def select_artist_def)

lemma ex_tables:
  "songs_table [song_a, song_b] = [select_song song_a, select_song song_b]"
  "artists_table [song_a, song_b] = [select_artist song_a, select_artist song_b]"
  "songs_table [song_a, song_b, song_a] = [select_song song_b, select_song song_a]"
  "artists_table [song_a, song_b, song_a] = [select_artist song_b, select_artist song_a]"
  by (simp_all add: songs_table_def artists_table_def dropDuplicates_def key_of_select ex_rows)

text \<open>
  Claim C6. The deduplication of the song and artist tables compares whole rows: two
  catalog records with the same non-null \<open>song_id\<close> (\<open>artist_id\<close>) whose projected rows
  differ both have their row in the table. Each table holds every projected row of a
  record with a non-null key exactly once, so only rows equal in every column collapse.
\<close>

theorem whole_row_dedup:
  "(r1 \<in> set df \<and> r2 \<in> set df \<and> song_id r1 \<noteq> None \<and> song_id r1 = song_id r2
      \<and> select_song r1 \<noteq> select_song r2
    \<longrightarrow> select_song r1 \<in> set (songs_table df) \<and> select_song r2 \<in> set (songs_table df)
        \<and> s_song_id (select_song r1) = s_song_id (select_song r2))
   \<and> (r1 \<in> set df \<and> r2 \<in> set df \<and> artist_id r1 \<noteq> None \<and> artist_id r1 = artist_id r2
      \<and> select_artist r1 \<noteq> select_artist r2
    \<longrightarrow> select_artist r1 \<in> set (artists_table df) \<and> select_artist r2 \<in> set (artists_table df)
        \<and> a_artist_id (select_artist r1) = a_artist_id (select_artist r2))
   \<and> distinct (songs_table df) \<and> distinct (artists_table df)
   \<and> set (songs_table df) = select_song ` {r \<in> set df. song_id r \<noteq> None}
   \<and> set (artists_table df) = select_artist ` {r \<in> set df. artist_id r \<noteq> None}"
  using set_songs_table [of df] set_artists_table [of df]
    distinct_songs_table [of df] distinct_artists_table [of df]
  by (auto simp: key_of_select)

theorem whole_row_dedup_witness:
  "song_id song_a = song_id song_b \<and> song_id song_a \<noteq> None
   \<and> artist_id song_a = artist_id song_b \<and> artist_id song_a \<noteq> None
   \<and> select_song song_a \<noteq> select_song song_b
   \<and> select_artist song_a \<noteq> select_artist song_b
   \<and> select_song song_a \<in> set (songs_table [song_a, song_b])
   \<and> select_song song_b \<in> set (songs_table [song_a, song_b])
   \<and> select_artist song_a \<in> set (artists_table [song_a, song_b])
   \<and> select_artist song_b \<in> set (artists_table [song_a, song_b])
   \<and> length (songs_table [song_a, song_b, song_a]) = 2
   \<and> length (artists_table [song_a, song_b, song_a]) = 2"
  using whole_row_dedup [of song_a "[song_a, song_b]" song_b]
  by (simp add: ex_rows ex_tables)

lemma remdups_twice: "distinct xs \<Longrightarrow> remdups (xs @ xs) = xs"
proof -
  have "filter (\<lambda>x. x \<notin> set xs) xs = []"
    by (simp add: filter_empty_conv)
  then show "distinct xs \<Longrightarrow> remdups (xs @ xs) = xs"
    by (simp add: remdups_append distinct_remdups_id)
qed

text \<open>
  Claim C8. Running the song (artist) extraction twice on the same catalog, taking the
  union of the two results and deduplicating it gives the table of a single run: the
  same list of rows, hence the same set of rows.
\<close>

theorem extraction_idempotent:
  "dropDuplicates (songs_table df @ songs_table df) = songs_table df
   \<and> dropDuplicates (artists_table df @ artists_table df) = artists_table df
   \<and> set (dropDuplicates (songs_table df @ songs_table df)) = set (songs_table df)
   \<and> set (dropDuplicates (artists_table df @ artists_table df)) = set (artists_table df)"
  using distinct_songs_table [of df] distinct_artists_table [of df]
  by (simp add: dropDuplicates_def remdups_twice)

section \<open>The users table: one row per user, the latest\<close>

lemma select_user_of: "selectExpr_user (select_ranked r n) = user_of r"
  by (simp add: selectExpr_user_def select_ranked_def user_of_def)

lemma user_id_user_of: "u_user_id (user_of r) = userId r"
  by (simp add: user_of_def)

lemma ts_desc_key_le: "ts_desc_key a \<le> ts_desc_key b \<longleftrightarrow> b \<le> a"
  by (cases a; cases b) (simp_all add: ts_desc_key_def)

lemma zip_upt_ge: "(r, n) \<in> set (zip xs [a ..< b]) \<Longrightarrow> a \<le> n"
  by (auto dest: set_zip_rightD)

lemma rank1_zip:
  "filter (\<lambda>r. ts_rank r = a)
     (map (\<lambda>(r, n). select_ranked r n) (zip s [a ..< a + length s]))
   = (case s of [] \<Rightarrow> [] | x # _ \<Rightarrow> [select_ranked x a])"
proof (cases s)
  case Nil
  then show ?thesis by simp
next
  case (Cons x xs)
  have "ts_rank ((\<lambda>(r, n). select_ranked r n) z) \<noteq> a"
    if "z \<in> set (zip xs [Suc a ..< a + length s])" for z
  proof -
    obtain r n where z: "z = (r, n)" by (cases z)
    from that [unfolded z] have "Suc a \<le> n" by (rule zip_upt_ge)
    then show ?thesis by (simp add: z select_ranked_def)
  qed
  then have "filter (\<lambda>r. ts_rank r = a)
          (map (\<lambda>(r, n). select_ranked r n) (zip xs [Suc a ..< a + length s])) = []"
    unfolding filter_empty_conv by (simp del: upt_Suc)
  moreover have "[a ..< a + length s] = a # [Suc a ..< a + length s]"
    using Cons by (simp add: upt_conv_Cons del: upt_Suc)
  ultimately show ?thesis
    using Cons by (simp add: select_ranked_def del: upt_Suc)
qed

lemma orderBy_ts_desc_nonempty: "orderBy_ts_desc p = [] \<longleftrightarrow> p = []"
proof -
  have "length (orderBy_ts_desc p) = length p"
    by (simp add: orderBy_ts_desc_def)
  then show ?thesis
    by (metis length_0_conv)
qed

lemma rank1_row_number:
  "filter (\<lambda>r. ts_rank r = Suc 0) (row_number p)
   = (case orderBy_ts_desc p of [] \<Rightarrow> [] | x # _ \<Rightarrow> [select_ranked x (Suc 0)])"
proof -
  have "length (orderBy_ts_desc p) = length p"
    by (simp add: orderBy_ts_desc_def)
  then show ?thesis
    using rank1_zip [of "Suc 0" "orderBy_ts_desc p"]
    by (simp add: row_number_def del: upt_Suc)
qed

lemma rank1_partition:
  assumes "k \<in> set (map userId df)"
  shows "map selectExpr_user
           (filter (\<lambda>r. ts_rank r = 1) (row_number (filter (\<lambda>r. userId r = k) df)))
         = [user_of (top_row df k)]"
proof -
  from assms have "filter (\<lambda>r. userId r = k) df \<noteq> []"
    by (auto simp: filter_empty_conv)
  then have "orderBy_ts_desc (filter (\<lambda>r. userId r = k) df) \<noteq> []"
    by (simp add: orderBy_ts_desc_nonempty)
  then show ?thesis
    by (cases "orderBy_ts_desc (filter (\<lambda>r. userId r = k) df)")
       (simp_all add: rank1_row_number top_row_def select_user_of)
qed

lemma rank1_rows:
  "map selectExpr_user
     (filter (\<lambda>r. ts_rank r = 1) (concat (map row_number (partitionBy_userId df))))
   = map (\<lambda>k. user_of (top_row df k)) (remdups (map userId df))"
proof -
  have "map selectExpr_user
          (filter (\<lambda>r. ts_rank r = 1) (concat (map row_number (map (\<lambda>k. filter (\<lambda>r. userId r = k) df) ks))))
        = map (\<lambda>k. user_of (top_row df k)) ks"
    if "set ks \<subseteq> set (map userId df)" for ks
    using that
  proof (induction ks)
    case Nil
    then show ?case by simp
  next
    case (Cons k ks)
    then show ?case
      using rank1_partition [of k df] by simp
  qed
  then show ?thesis
    by (simp add: partitionBy_userId_def)
qed

lemma top_row_props:
  assumes "k \<in> set (map userId df)"
  shows "top_row df k \<in> set df" "userId (top_row df k) = k"
    "\<forall>q\<in>set df. userId q = k \<longrightarrow> ts q \<le> ts (top_row df k)"
proof -
  let ?p = "filter (\<lambda>r. userId r = k) df"
  let ?s = "orderBy_ts_desc ?p"
  from assms have ne: "?p \<noteq> []"
    by (auto simp: filter_empty_conv)
  then have sne: "?s \<noteq> []"
    by (simp add: orderBy_ts_desc_nonempty)
  have set_s: "set ?s = set ?p"
    by (simp add: orderBy_ts_desc_def)
  have "hd ?s \<in> set ?s"
    using sne by simp
  then have mem: "top_row df k \<in> set ?p"
    by (simp add: top_row_def set_s)
  then show "top_row df k \<in> set df" "userId (top_row df k) = k"
    by simp_all
  have "sorted (map (\<lambda>r. ts_desc_key (ts r)) ?s)"
    by (simp add: orderBy_ts_desc_def)
  then have "\<forall>q\<in>set ?s. ts_desc_key (ts (hd ?s)) \<le> ts_desc_key (ts q)"
    using sne by (cases ?s) auto
  then show "\<forall>q\<in>set df. userId q = k \<longrightarrow> ts q \<le> ts (top_row df k)"
    by (simp add: set_s ts_desc_key_le top_row_def)
qed

lemma users_table_eq:
  "users_table df
   = map (\<lambda>k. user_of (top_row df k)) (filter (\<lambda>k. k \<noteq> None) (remdups (map userId df)))"
proof -
  have "users_table df
        = filter (\<lambda>u. u_user_id u \<noteq> None)
            (map selectExpr_user
              (filter (\<lambda>r. ts_rank r = 1) (concat (map row_number (partitionBy_userId df)))))"
    unfolding users_table_def users_ranked_def filter_map
    by (simp add: selectExpr_user_def comp_def conj_commute)
  also have "\<dots> = filter (\<lambda>u. u_user_id u \<noteq> None)
                     (map (\<lambda>k. user_of (top_row df k)) (remdups (map userId df)))"
    by (simp only: rank1_rows)
  also have "\<dots> = map (\<lambda>k. user_of (top_row df k))
                     (filter (\<lambda>k. u_user_id (user_of (top_row df k)) \<noteq> None) (remdups (map userId df)))"
    by (simp add: filter_map comp_def)
  also have "\<dots> = map (\<lambda>k. user_of (top_row df k))
                     (filter (\<lambda>k. k \<noteq> None) (remdups (map userId df)))"
  proof -
    have "filter (\<lambda>k. u_user_id (user_of (top_row df k)) \<noteq> None) (remdups (map userId df))
          = filter (\<lambda>k. k \<noteq> None) (remdups (map userId df))"
      by (rule filter_cong) (simp_all add: user_id_user_of top_row_props(2))
    then show ?thesis by simp
  qed
  finally show ?thesis .
qed

lemma user_ids_users_table:
  "map u_user_id (users_table df) = filter (\<lambda>k. k \<noteq> None) (remdups (map userId df))"
proof -
  have "map (\<lambda>k. u_user_id (user_of (top_row df k))) ks = ks"
    if "set ks \<subseteq> set (map userId df)" for ks
    using that by (induction ks) (simp_all add: user_id_user_of top_row_props(2))
  then show ?thesis
    by (simp add: users_table_eq comp_def)
qed

lemma distinct_user_ids: "distinct (map u_user_id (users_table df))"
  by (simp add: user_ids_users_table)



lemma log_users_concat: "log_users log_data = users_table (where_NextSong (concat log_data))"
  by (simp add: log_users_def where_NextSong_def [abs_def] filter_concat)

lemma user_row_unique:
  assumes "Some u \<in> userId ` set df"
  shows "filter (\<lambda>x. u_user_id x = Some u) (users_table df) = [user_of (top_row df (Some u))]"
proof -
  have *: "filter (\<lambda>x. u_user_id x = k) (map (\<lambda>k. user_of (top_row df k)) ks)
           = (if k \<in> set ks then [user_of (top_row df k)] else [])"
    if "distinct ks" "set ks \<subseteq> set (map userId df)" for ks k
    using that
  proof (induction ks)
    case Nil
    then show ?case by simp
  next
    case (Cons a ks)
    have "u_user_id (user_of (top_row df a)) = a"
      using Cons.prems(2) by (simp add: user_id_user_of top_row_props(2))
    then show ?case
      using Cons by auto
  qed
  have "distinct (filter (\<lambda>k. k \<noteq> None) (remdups (map userId df)))"
    by simp
  moreover have "set (filter (\<lambda>k. k \<noteq> None) (remdups (map userId df))) \<subseteq> set (map userId df)"
    by auto
  moreover have "Some u \<in> set (filter (\<lambda>k. k \<noteq> None) (remdups (map userId df)))"
    using assms by auto
  ultimately show ?thesis
    using * [of "filter (\<lambda>k. k \<noteq> None) (remdups (map userId df))" "Some u"]
    by (simp only: users_table_eq if_True)
qed

lemma eval_plays_u:
  "users_table (where_NextSong plays_u) = [user_of (next_song ''u1'' 300 ''paid'')]"
  by code_simp


text \<open>
  Claim C1, as stated, fails: two catalog records with the same \<open>song_id\<close> and
  \<open>artist_id\<close> but different titles and artist names give two song rows with one
  \<open>song_id\<close> and two artist rows with one \<open>artist_id\<close>.
\<close>

theorem key_uniqueness_counterexample:
  "\<not> distinct (map s_song_id (songs_table [song_a, song_b]))
   \<and> \<not> distinct (map a_artist_id (artists_table [song_a, song_b]))"
  by (simp add: ex_tables key_of_select ex_rows)

text \<open>
  Claim C1, amended. The song rows are pairwise distinct as whole rows and none has a
  null \<open>song_id\<close>; likewise the artist rows and \<open>artist_id\<close>; the user rows have
  pairwise distinct, non-null \<open>user_id\<close> values.
\<close>

theorem row_uniqueness:
  "distinct (songs_table song_data) \<and> None \<notin> s_song_id ` set (songs_table song_data)
   \<and> distinct (artists_table song_data) \<and> None \<notin> a_artist_id ` set (artists_table song_data)
   \<and> distinct (map u_user_id (users_table (where_NextSong log_data)))
   \<and> None \<notin> u_user_id ` set (users_table (where_NextSong log_data))"
proof -
  have "None \<notin> s_song_id ` set (songs_table song_data)"
    by (auto simp: set_songs_table key_of_select)
  moreover have "None \<notin> a_artist_id ` set (artists_table song_data)"
    by (auto simp: set_artists_table key_of_select)
  moreover have "None \<notin> set (map u_user_id (users_table (where_NextSong log_data)))"
    unfolding user_ids_users_table by simp
  ultimately show ?thesis
    using distinct_songs_table distinct_artists_table distinct_user_ids by simp
qed

theorem row_uniqueness_witness:
  "distinct (songs_table [song_a, song_b]) \<and> length (songs_table [song_a, song_b]) = 2
   \<and> distinct (artists_table [song_a, song_b]) \<and> length (artists_table [song_a, song_b]) = 2
   \<and> distinct (map u_user_id (users_table (where_NextSong plays_u)))
   \<and> length (users_table (where_NextSong plays_u)) = 1"
  using row_uniqueness [of "[song_a, song_b]" plays_u]
  by (simp add: ex_tables eval_plays_u)

text \<open>
  Claim C3. For every non-null \<open>userId\<close> among the rows with \<open>page = 'NextSong'\<close> the
  users table has exactly one row, and it holds the user columns of a row of that user
  whose \<open>ts\<close> is greatest among the user's rows (a null \<open>ts\<close> counting as least). For
  the user with rows at \<open>ts\<close> 100, 300, 200 and levels free, paid, free the level is paid.
\<close>

theorem user_latest:
  "(\<forall>u. (\<exists>r\<in>set (where_NextSong df). userId r = Some u) \<longrightarrow>
      (\<exists>r\<in>set (where_NextSong df).
          userId r = Some u
        \<and> (\<forall>q\<in>set (where_NextSong df). userId q = Some u \<longrightarrow> ts q \<le> ts r)
        \<and> filter (\<lambda>x. u_user_id x = Some u) (users_table (where_NextSong df)) = [user_of r]))
   \<and> map u_level (users_table (where_NextSong plays_u)) = [Some ''paid'']"
proof -
  have "\<exists>r\<in>set A. userId r = Some u \<and> (\<forall>q\<in>set A. userId q = Some u \<longrightarrow> ts q \<le> ts r)
          \<and> filter (\<lambda>x. u_user_id x = Some u) (users_table A) = [user_of r]"
    if "\<exists>r\<in>set A. userId r = Some u" for A u
  proof -
    from that have k: "Some u \<in> set (map userId A)"
      by force
    then have k': "Some u \<in> userId ` set A"
      by simp
    show ?thesis
      using top_row_props [OF k] user_row_unique [OF k'] by blast
  qed
  moreover have "map u_level (users_table (where_NextSong plays_u)) = [Some ''paid'']"
    by (simp add: eval_plays_u user_of_def next_song_def)
  ultimately show ?thesis
    by blast
qed

lemma next_song_simps:
  "ts (next_song u t l) = Some t" "page (next_song u t l) = Some ''NextSong''"
  "userId (next_song u t l) = Some u" "level (next_song u t l) = Some l"
  by (simp_all add: next_song_def)

lemma where_plays_u:
  "where_NextSong plays_u = plays_u"
  "set plays_u = {next_song ''u1'' 100 ''free'', next_song ''u1'' 300 ''paid'',
                  next_song ''u1'' 200 ''free''}"
  by (simp_all add: where_NextSong_def plays_u_def next_song_simps)

theorem user_latest_witness:
  "(\<exists>r\<in>set (where_NextSong plays_u). userId r = Some ''u1'')
   \<and> (\<exists>r\<in>set (where_NextSong plays_u).
          userId r = Some ''u1'' \<and> ts r = Some 300
        \<and> filter (\<lambda>x. u_user_id x = Some ''u1'') (users_table (where_NextSong plays_u)) = [user_of r])"
proof -
  have h: "\<exists>r\<in>set (where_NextSong plays_u). userId r = Some ''u1''"
    unfolding where_plays_u by (simp add: next_song_simps)
  with user_latest [of plays_u] obtain r where
    r: "r \<in> set (where_NextSong plays_u)" "userId r = Some ''u1''"
      "\<forall>q\<in>set (where_NextSong plays_u). userId q = Some ''u1'' \<longrightarrow> ts q \<le> ts r"
      "filter (\<lambda>x. u_user_id x = Some ''u1'') (users_table (where_NextSong plays_u)) = [user_of r]"
    by blast
  from r(3) have "Some 300 \<le> ts r"
    unfolding where_plays_u by (simp add: next_song_simps)
  moreover from r(1) have "ts r \<in> {Some 100, Some 300, Some 200}"
    unfolding where_plays_u by (auto simp: next_song_simps)
  ultimately have "ts r = Some 300"
    by auto
  with h r show ?thesis
    by blast
qed

section \<open>The users table: null users and the order of the rows\<close>

lemma prefilter_keys:
  "remdups (map userId (filter (\<lambda>r. userId r \<noteq> None) df))
   = filter (\<lambda>k. k \<noteq> None) (remdups (map userId df))"
proof -
  have "map userId (filter (\<lambda>r. userId r \<noteq> None) df) = filter (\<lambda>k. k \<noteq> None) (map userId df)"
    by (simp add: filter_map comp_def)
  then show ?thesis
    by (simp add: remdups_filter)
qed

lemma prefilter_top_row:
  "k \<noteq> None \<Longrightarrow> top_row (filter (\<lambda>r. userId r \<noteq> None) df) k = top_row df k"
proof -
  assume "k \<noteq> None"
  then have "filter (\<lambda>r. userId r = k) (filter (\<lambda>r. userId r \<noteq> None) df)
             = filter (\<lambda>r. userId r = k) df"
    by (auto intro: filter_cong)
  then show ?thesis
    by (simp add: top_row_def)
qed

text \<open>
  Claim C10. The program ranks first and removes the rows of null \<open>userId\<close> afterwards;
  the specification removes them before the ranking. Both give the same users table:
  the null rows form a partition of their own, which the later filter removes whole.
\<close>

theorem null_filter_commutes:
  "users_table df = users_table_prefiltered df"
proof -
  have "users_table_prefiltered df
        = map (\<lambda>k. user_of (top_row (filter (\<lambda>r. userId r \<noteq> None) df) k))
            (filter (\<lambda>k. k \<noteq> None) (remdups (map userId df)))"
    unfolding users_table_prefiltered_def rank1_rows prefilter_keys ..
  also have "\<dots> = map (\<lambda>k. user_of (top_row df k))
                     (filter (\<lambda>k. k \<noteq> None) (remdups (map userId df)))"
  proof (rule map_cong [OF refl])
    fix k
    assume "k \<in> set (filter (\<lambda>k. k \<noteq> None) (remdups (map userId df)))"
    then have "k \<noteq> None"
      by simp
    then show "user_of (top_row (filter (\<lambda>r. userId r \<noteq> None) df) k) = user_of (top_row df k)"
      by (rule arg_cong [OF prefilter_top_row])
  qed
  finally show ?thesis
    by (simp add: users_table_eq)
qed





lemma eval_null_user:
  "users_table (null_user_play # where_NextSong plays_u) = [user_of (next_song ''u1'' 300 ''paid'')]"
  by code_simp

theorem null_filter_commutes_witness:
  "users_table_prefiltered (null_user_play # where_NextSong plays_u)
   = [user_of (next_song ''u1'' 300 ''paid'')]"
  using null_filter_commutes [of "null_user_play # where_NextSong plays_u"]
  by (simp add: eval_null_user)




section \<open>The time table\<close>

lemma get_timestamp_simps:
  "get_timestamp None = Inr None"
  "get_timestamp (Some 0) = Inr None"
  "t \<noteq> 0 \<Longrightarrow> - 9223372036854 \<le> t \<Longrightarrow> t \<le> 9223372036854 \<Longrightarrow> get_timestamp (Some t) = Inr (Some t)"
  by (simp_all add: get_timestamp_def to_datetime_def)

lemma start_time_extend: "start_time (raw_log.extend r (log_ts.fields t)) = t"
  by (simp add: raw_log.defs log_ts.defs)

lemma each_row_total: "(\<forall>x\<in>set xs. f x = Inr (g x)) \<Longrightarrow> each_row f xs = Inr (map g xs)"
  by (induction xs) simp_all

lemma udf_ok_iff: "udf_ok r \<longleftrightarrow> \<not> isl (get_timestamp (ts r))"
  by (auto simp: udf_ok_def get_timestamp_def to_datetime_def split: option.splits)

lemma withColumn_start_time_ok:
  "udf_ok r \<Longrightarrow> withColumn_start_time r = Inr (with_start_time r)"
  by (auto simp: udf_ok_def withColumn_start_time_def with_start_time_def get_timestamp_def
      to_datetime_def split: option.splits)

lemma start_time_with: "Inr (start_time (with_start_time r)) = get_timestamp (ts r)" if "udf_ok r"
  using that
  by (auto simp: udf_ok_def with_start_time_def get_timestamp_def
      to_datetime_def start_time_extend split: option.splits)

lemma frame_start_time_ok:
  assumes "\<forall>p\<in>set df. \<forall>r\<in>set p. udf_ok r"
  shows "each_row (each_row withColumn_start_time) df = Inr (map (map with_start_time) df)"
proof (rule each_row_total, rule ballI)
  fix p assume "p \<in> set df"
  with assms have "\<forall>r\<in>set p. withColumn_start_time r = Inr (with_start_time r)"
    by (simp add: withColumn_start_time_ok)
  then show "each_row withColumn_start_time p = Inr (map with_start_time p)"
    by (rule each_row_total)
qed

lemma log_time_concat: "log_time log_data = time_table (where_NextSong (concat log_data))"
  by (simp add: log_time_def where_NextSong_def [abs_def] filter_concat)

lemma start_time_with_iff:
  "start_time (with_start_time r) = Some t \<longleftrightarrow> ts r = Some t \<and> t \<noteq> 0"
  by (auto simp: with_start_time_def start_time_extend split: option.splits)

text \<open>
  What the time table holds when the udf raises on no row: one row for every non-null
  \<open>ts\<close> other than 0, and no two rows with the same \<open>start_time\<close>.
\<close>

lemma time_table_rows:
  assumes "\<forall>r\<in>set df. udf_ok r"
  shows "\<exists>rows. time_table df = Inr rows
     \<and> set rows = select_time ` {t. t \<noteq> 0 \<and> Some t \<in> ts ` set df}
     \<and> distinct (map t_start_time rows)"
proof -
  let ?rows = "time_query (map with_start_time df)"
  have "\<forall>r\<in>set df. withColumn_start_time r = Inr (with_start_time r)"
    using assms by (simp add: withColumn_start_time_ok)
  then have "each_row withColumn_start_time df = Inr (map with_start_time df)"
    by (rule each_row_total)
  then have run: "time_table df = Inr ?rows"
    by (simp add: time_table_def)
  have mem: "x \<in> set ?rows \<longleftrightarrow>
      (\<exists>r\<in>set df. \<exists>t. start_time (with_start_time r) = Some t \<and> x = select_time t)" for x
  proof -
    have "x \<in> set (case v of None \<Rightarrow> [] | Some t \<Rightarrow> [select_time t])
          \<longleftrightarrow> (\<exists>t. v = Some t \<and> x = select_time t)" for v
      by (cases v) auto
    then show ?thesis
      by (simp add: time_query_def dropDuplicates_def)
  qed
  have set: "set ?rows = select_time ` {t. t \<noteq> 0 \<and> Some t \<in> ts ` set df}"
    unfolding set_eq_iff mem start_time_with_iff by force
  have "distinct ?rows"
    by (simp add: time_query_def dropDuplicates_def)
  moreover have "inj_on t_start_time (set ?rows)"
    unfolding set by (rule inj_onI) (auto simp: select_time_def)
  ultimately have "distinct (map t_start_time ?rows)"
    by (simp add: distinct_map)
  with run set show ?thesis
    by blast
qed

lemma select_time_example:
  "select_time 1541105830796 =
     \<lparr>t_start_time = 1541105830796, t_hour = 20, t_day = 1, t_week = 44, t_month = 11,
      t_year = 2018, t_weekday = ''Thu''\<rparr>"
  by code_simp

lemma time_table_single:
  "get_timestamp (ts r) = Inr (Some t) \<Longrightarrow> time_table [r] = Inr [select_time t]"
  "get_timestamp (ts r) = Inr None \<Longrightarrow> time_table [r] = Inr []"
  by (simp_all add: time_table_def withColumn_start_time_def time_query_def dropDuplicates_def
      start_time_extend)

lemma log_time_single:
  "page r = Some ''NextSong'' \<Longrightarrow> log_time [[r]] = time_table [r]"
  by (simp add: log_time_def where_NextSong_def)

text \<open>
  Claim C7, amended. The time row is a fixed function of \<open>ts\<close>: a row with
  \<open>page = 'NextSong'\<close> and \<open>ts = 1541105830796\<close> (2018-11-01 20:57:10.796 UTC) gives
  the single time row with year 2018, month 11, day 1, hour 20 and weekday Thu.
\<close>

theorem time_derivation:
  assumes "page r = Some ''NextSong''" and "ts r = Some 1541105830796"
  shows "log_time [[r]] =
     Inr [\<lparr>t_start_time = 1541105830796, t_hour = 20, t_day = 1, t_week = 44, t_month = 11,
           t_year = 2018, t_weekday = ''Thu''\<rparr>]"
proof -
  have "get_timestamp (ts r) = Inr (Some 1541105830796)"
    by (simp add: assms(2) get_timestamp_simps)
  then show ?thesis
    using assms(1) by (simp add: log_time_single time_table_single select_time_example)
qed

lemma ts_play_simps: "page ts_play = Some ''NextSong''" "ts ts_play = Some 1541105830796"
  "page zero_play = Some ''NextSong''" "ts zero_play = Some 0"
  by (simp_all add: ts_play_def zero_play_def next_song_simps)

theorem time_derivation_witness:
  "page ts_play = Some ''NextSong'' \<and> ts ts_play = Some 1541105830796
   \<and> map t_year (projr (log_time [[ts_play]])) = [2018]
   \<and> map t_month (projr (log_time [[ts_play]])) = [11]
   \<and> map t_day (projr (log_time [[ts_play]])) = [1]
   \<and> map t_hour (projr (log_time [[ts_play]])) = [20]
   \<and> map t_weekday (projr (log_time [[ts_play]])) = [''Thu'']"
  using time_derivation [of ts_play] by (simp add: ts_play_simps)

text \<open>
  Claim C7, as stated, fails in the hour: 1541105830796 ms is 17836 days, 20 hours,
  57 minutes and 10.796 seconds after the epoch, so the hour is 20, not 21.
\<close>

theorem time_derivation_counterexample:
  "log_time [[ts_play]] = Inr [select_time 1541105830796]
   \<and> t_hour (select_time 1541105830796) \<noteq> 21"
proof -
  have "get_timestamp (ts ts_play) = Inr (Some 1541105830796)"
    by (simp add: ts_play_simps get_timestamp_simps)
  then show ?thesis
    by (simp add: log_time_single time_table_single ts_play_simps select_time_example)
qed

text \<open>
  Claim C5 on the program: the udf tests \<open>if x:\<close>, which is false for \<open>ts = 0\<close> as it
  is for a null \<open>ts\<close>. A row with \<open>page = 'NextSong'\<close> and \<open>ts = 0\<close> gets a null
  \<open>start_time\<close> and no time row, while \<open>ts = 1\<close> gets one.
\<close>

theorem ts_zero_dropped:
  "page zero_play = Some ''NextSong'' \<and> ts zero_play = Some 0
   \<and> log_time [[zero_play]] = Inr []
   \<and> log_time [[next_song ''u1'' 1 ''free'']] = Inr [select_time 1]"
proof -
  have "get_timestamp (ts zero_play) = Inr None"
    by (simp add: ts_play_simps get_timestamp_simps)
  moreover have "get_timestamp (ts (next_song ''u1'' 1 ''free'')) = Inr (Some 1)"
    by (simp add: next_song_simps get_timestamp_simps)
  ultimately show ?thesis
    by (simp add: log_time_single time_table_single ts_play_simps next_song_simps)
qed

section \<open>The songplays table\<close>

lemma mid_unat:
  assumes "p < 2 ^ 31" "i < 2 ^ 33"
  shows "unat (monotonically_increasing_id p i) = p * 2 ^ 33 + i"
proof -
  have a: "p * 2 ^ 33 + i < 2 ^ 64"
  proof -
    have "p * 2 ^ 33 \<le> (2 ^ 31 - 1) * 2 ^ 33"
      using assms(1) by simp
    then show ?thesis
      using assms(2) by simp
  qed
  have "monotonically_increasing_id p i = (word_of_nat (p * 2 ^ 33 + i) :: 64 word)"
    by (simp add: monotonically_increasing_id_def push_bit_eq_mult)
  then show ?thesis
    using a by (simp add: unat_of_nat take_bit_nat_eq_self del: of_nat_add of_nat_mult)
qed

lemma mid_inj:
  assumes "p < 2 ^ 31" "i < 2 ^ 33" "q < 2 ^ 31" "j < 2 ^ 33"
    and "monotonically_increasing_id p i = monotonically_increasing_id q j"
  shows "p = q \<and> i = j"
proof -
  have e: "p * 2 ^ 33 + i = q * 2 ^ 33 + j"
    using mid_unat [OF assms(1,2)] mid_unat [OF assms(3,4)] assms(5) by simp
  have "(p * 2 ^ 33 + i) div 2 ^ 33 = p" "(q * 2 ^ 33 + j) div 2 ^ 33 = q"
    using assms(2,4) by simp_all
  with e have "p = q"
    by metis
  with e show ?thesis
    by simp
qed

lemma log_id_fields:
  "songplay_id (log_ts.extend a (log_id.fields i)) = i"
  "log_ts.truncate (log_ts.extend a (log_id.fields i)) = a"
  by (simp_all add: log_ts.defs log_id.defs raw_log.defs)

lemma map_snd_enum: "map (\<lambda>x. g (snd x)) (enumerate n xs) = map g xs"
proof -
  have "map (g \<circ> snd) (enumerate n xs) = map g (map snd (enumerate n xs))"
    by (simp only: map_map)
  then show ?thesis
    by (simp add: comp_def)
qed

lemma map_fst_enum: "map (\<lambda>x. g (fst x)) (enumerate n xs) = map g [n ..< n + length xs]"
proof -
  have "map (g \<circ> fst) (enumerate n xs) = map g (map fst (enumerate n xs))"
    by (simp only: map_map)
  then show ?thesis
    by (simp add: comp_def)
qed

lemma truncate_songplay_id:
  "map log_ts.truncate (withColumn_songplay_id parts) = concat parts"
proof -
  have "map log_ts.truncate (case x of (p, rows) \<Rightarrow>
          map (\<lambda>(i, r). log_ts.extend r (log_id.fields (monotonically_increasing_id p i)))
            (enumerate 0 rows)) = snd x" for x :: "nat \<times> log_ts list"
    by (cases x) (simp add: comp_def case_prod_unfold log_id_fields map_snd_enum)
  then have "map log_ts.truncate (withColumn_songplay_id parts)
             = concat (map snd (enumerate 0 parts))"
    by (simp add: withColumn_songplay_id_def map_concat comp_def)
  then show ?thesis
    by simp
qed

lemma ids_songplay_id:
  "map songplay_id (withColumn_songplay_id parts)
   = concat (map (\<lambda>(p, rows). map (monotonically_increasing_id p) [0 ..< length rows])
       (enumerate 0 parts))"
proof -
  have "map songplay_id (case x of (p, rows) \<Rightarrow>
          map (\<lambda>(i, r). log_ts.extend r (log_id.fields (monotonically_increasing_id p i)))
            (enumerate 0 rows))
        = (case x of (p, rows) \<Rightarrow> map (monotonically_increasing_id p) [0 ..< length rows])"
    for x :: "nat \<times> log_ts list"
    using map_fst_enum [of "monotonically_increasing_id (fst x)" 0 "snd x"]
    by (cases x) (simp add: comp_def case_prod_unfold log_id_fields)
  then show ?thesis
    by (simp add: withColumn_songplay_id_def map_concat comp_def)
qed

lemma ids_range:
  assumes "x \<in> set (concat (map (\<lambda>(p, rows). map (monotonically_increasing_id p) [0 ..< length rows])
       (enumerate m parts)))"
    and "\<forall>p\<in>set parts. length p \<le> 2 ^ 33"
  shows "\<exists>q j. m \<le> q \<and> q < m + length parts \<and> j < 2 ^ 33 \<and> x = monotonically_increasing_id q j"
proof -
  from assms(1) obtain q rows j where
    qr: "(q, rows) \<in> set (enumerate m parts)" and j: "j < length rows"
    and x: "x = monotonically_increasing_id q j"
    by auto
  from qr have q: "m \<le> q" "q < m + length parts" and "rows \<in> set parts"
    by (auto simp: in_set_enumerate_eq)
  with assms(2) have "length rows \<le> 2 ^ 33"
    by blast
  with j have "j < 2 ^ 33"
    by (rule less_le_trans)
  with q x show ?thesis
    by blast
qed

lemma ids_distinct:
  assumes "m + length parts \<le> 2 ^ 31" and "\<forall>p\<in>set parts. length p \<le> 2 ^ 33"
  shows "distinct (concat (map (\<lambda>(p, rows). map (monotonically_increasing_id p) [0 ..< length rows])
       (enumerate m parts)))"
  using assms
proof (induction parts arbitrary: m)
  case Nil
  then show ?case by simp
next
  case (Cons rows parts)
  let ?rest = "concat (map (\<lambda>(p, rows). map (monotonically_increasing_id p) [0 ..< length rows])
       (enumerate (Suc m) parts))"
  have m: "m < 2 ^ 31"
    using Cons.prems(1) by simp
  have len: "length rows \<le> 2 ^ 33" and lens: "\<forall>p\<in>set parts. length p \<le> 2 ^ 33"
    using Cons.prems(2) by auto
  have small: "i < 2 ^ 33" if "i < length rows" for i
    using that len by (rule less_le_trans)
  have "inj_on (monotonically_increasing_id m) (set [0 ..< length rows])"
  proof (rule inj_onI)
    fix i j
    assume "i \<in> set [0 ..< length rows]" "j \<in> set [0 ..< length rows]"
      and e: "monotonically_increasing_id m i = monotonically_increasing_id m j"
    then have "i < 2 ^ 33" "j < 2 ^ 33"
      using small by simp_all
    then show "i = j"
      using mid_inj [OF m _ m _ e] by blast
  qed
  then have d1: "distinct (map (monotonically_increasing_id m) [0 ..< length rows])"
    by (simp add: distinct_map)
  have d2: "distinct ?rest"
  proof (rule Cons.IH)
    show "Suc m + length parts \<le> 2 ^ 31"
      using Cons.prems(1) by simp
    show "\<forall>p\<in>set parts. length p \<le> 2 ^ 33"
      by (rule lens)
  qed
  have d3: "monotonically_increasing_id m i \<notin> set ?rest" if "i < length rows" for i
  proof
    assume "monotonically_increasing_id m i \<in> set ?rest"
    from ids_range [OF this lens] obtain q j where
      q: "Suc m \<le> q" "q < Suc m + length parts" "j < 2 ^ 33"
      and e: "monotonically_increasing_id m i = monotonically_increasing_id q j"
      by blast
    have "q < 2 ^ 31"
      using q(2) Cons.prems(1) by simp
    then have "m = q"
      using mid_inj [OF m small [OF that] _ q(3) e] by blast
    with q(1) show False
      by simp
  qed
  have "x \<notin> set ?rest"
    if "x \<in> set (map (monotonically_increasing_id m) [0 ..< length rows])" for x
  proof -
    from that obtain i where "i < length rows" "x = monotonically_increasing_id m i"
      by auto
    then show ?thesis
      by (simp only: d3 not_False_eq_True)
  qed
  then have "set (map (monotonically_increasing_id m) [0 ..< length rows]) \<inter> set ?rest = {}"
    by blast
  with d1 d2 show ?case
    by (simp add: enumerate_simps)
qed

lemma songplay_ids_distinct:
  assumes "length parts \<le> 2 ^ 31" and "\<forall>p\<in>set parts. length p \<le> 2 ^ 33"
  shows "distinct (map songplay_id (withColumn_songplay_id parts))"
proof -
  have "0 + length parts \<le> 2 ^ 31"
    using assms(1) by simp
  then show ?thesis
    unfolding ids_songplay_id using assms(2) by (rule ids_distinct)
qed

lemma left_join_iff:
  "(a, b) \<in> set (left_join on l r) \<longleftrightarrow>
     a \<in> set l \<and> (case b of None \<Rightarrow> filter (on a) r = [] | Some x \<Rightarrow> x \<in> set r \<and> on a x)"
proof -
  have "(a, b) \<in> set (case ms of [] \<Rightarrow> [(a', None)] | m # ms' \<Rightarrow> map (\<lambda>b. (a', Some b)) (m # ms'))
        \<longleftrightarrow> a = a' \<and> (case b of None \<Rightarrow> ms = [] | Some x \<Rightarrow> x \<in> set ms)"
    for a' and ms :: "'b list"
    by (cases ms; cases b) auto
  then have "(a, b) \<in> set (left_join on l r) \<longleftrightarrow>
      (\<exists>a'\<in>set l. a = a' \<and> (case b of None \<Rightarrow> filter (on a') r = []
                                 | Some x \<Rightarrow> x \<in> set (filter (on a') r)))"
    by (simp add: left_join_def)
  then show ?thesis
    by (cases b) auto
qed

lemma left_join_nofan:
  "(\<forall>a\<in>set l. length (filter (on a) r) \<le> 1) \<Longrightarrow> map fst (left_join on l r) = l"
proof (induction l)
  case Nil
  then show ?case by (simp add: left_join_def)
next
  case (Cons a l)
  then have "map fst (left_join on l r) = l"
    by simp
  moreover have "map fst (case filter (on a) r of [] \<Rightarrow> [(a, None)]
                        | m # ms \<Rightarrow> map (\<lambda>b. (a, Some b)) (m # ms)) = [a]"
    using Cons.prems by (cases "filter (on a) r") (auto simp: comp_def)
  ultimately show ?case
    by (simp add: left_join_def)
qed

lemma log_id_cols:
  "userId (log_ts.truncate a) = userId a" "sessionId (log_ts.truncate a) = sessionId a"
  "location (log_ts.truncate a) = location a" "level (log_ts.truncate a) = level a"
  "userAgent (log_ts.truncate a) = userAgent a" "song (log_ts.truncate a) = song a"
  "artist (log_ts.truncate a) = artist a" "start_time (log_ts.truncate a) = start_time a"
  by (simp_all add: log_ts.defs)

lemma with_start_time_cols:
  "userId (with_start_time r) = userId r" "sessionId (with_start_time r) = sessionId r"
  "location (with_start_time r) = location r" "level (with_start_time r) = level r"
  "userAgent (with_start_time r) = userAgent r" "song (with_start_time r) = song r"
  "artist (with_start_time r) = artist r"
  by (simp_all add: with_start_time_def raw_log.defs)

lemma select_cols:
  "sp_songplay_id (select_songplay ((a, b), c)) = songplay_id a"
  "sp_start_time (select_songplay ((a, b), c)) = start_time a"
  "sp_user_id (select_songplay ((a, b), c)) = userId a"
  "sp_session_id (select_songplay ((a, b), c)) = sessionId a"
  "sp_location (select_songplay ((a, b), c)) = location a"
  "sp_level (select_songplay ((a, b), c)) = level a"
  "sp_user_agent (select_songplay ((a, b), c)) = userAgent a"
  "sp_song_id (select_songplay ((a, b), c)) = Option.bind b s_song_id"
  "sp_artist_id (select_songplay ((a, b), c)) = Option.bind c a_artist_id"
  by (simp_all add: select_songplay_def)

lemma songplays_query_iff:
  "row \<in> set (songplays_query W songs artists) \<longleftrightarrow>
     (\<exists>a b c. a \<in> set W
        \<and> (case b of None \<Rightarrow> filter (\<lambda>s. sql_eq (song a) (s_title s)) songs = []
                    | Some s \<Rightarrow> s \<in> set songs \<and> sql_eq (song a) (s_title s))
        \<and> (case c of None \<Rightarrow> filter (\<lambda>x. sql_eq (artist a) (a_name x)) artists = []
                    | Some x \<Rightarrow> x \<in> set artists \<and> sql_eq (artist a) (a_name x))
        \<and> row = select_songplay ((a, b), c))"
proof -
  let ?J1 = "left_join (\<lambda>a b. sql_eq (song a) (s_title b)) W songs"
  let ?J2 = "left_join (\<lambda>(a, b) c. sql_eq (artist a) (a_name c)) ?J1 artists"
  have "row \<in> set (songplays_query W songs artists)
        \<longleftrightarrow> (\<exists>a b c. ((a, b), c) \<in> set ?J2 \<and> row = select_songplay ((a, b), c))"
    by (force simp: songplays_query_def dropDuplicates_def)
  then show ?thesis
    by (simp add: left_join_iff conj_ac cong: option.case_cong)
qed

lemma songplays_query_row:
  assumes "a \<in> set W"
  shows "\<exists>b c. select_songplay ((a, b), c) \<in> set (songplays_query W songs artists)
      \<and> ((\<forall>s\<in>set songs. \<not> sql_eq (song a) (s_title s)) \<longrightarrow> b = None)
      \<and> ((\<forall>x\<in>set artists. \<not> sql_eq (artist a) (a_name x)) \<longrightarrow> c = None)"
proof -
  have "\<exists>b. (case b of None \<Rightarrow> filter P xs = [] | Some s \<Rightarrow> s \<in> set xs \<and> P s)
           \<and> ((\<forall>s\<in>set xs. \<not> P s) \<longrightarrow> b = None)" for P and xs :: "'x list"
  proof (cases "filter P xs")
    case Nil
    then show ?thesis
      by (intro exI [of _ None]) simp
  next
    case (Cons m ms)
    then have "m \<in> set (filter P xs)"
      by simp
    then show ?thesis
      by (intro exI [of _ "Some m"]) auto
  qed
  from this [of "\<lambda>s. sql_eq (song a) (s_title s)" songs]
    this [of "\<lambda>x. sql_eq (artist a) (a_name x)" artists] assms
  show ?thesis
    unfolding songplays_query_iff by blast
qed

lemma songplays_query_ids:
  "sp_songplay_id ` set (songplays_query W songs artists) = songplay_id ` set W"
proof (intro set_eqI iffI)
  fix i assume "i \<in> sp_songplay_id ` set (songplays_query W songs artists)"
  then show "i \<in> songplay_id ` set W"
    by (auto simp: songplays_query_iff select_cols)
next
  fix i assume "i \<in> songplay_id ` set W"
  then obtain a where a: "a \<in> set W" "i = songplay_id a"
    by blast
  from songplays_query_row [OF a(1)] obtain b c
    where "select_songplay ((a, b), c) \<in> set (songplays_query W songs artists)"
    by blast
  then have "sp_songplay_id (select_songplay ((a, b), c))
      \<in> sp_songplay_id ` set (songplays_query W songs artists)"
    by (rule imageI)
  then show "i \<in> sp_songplay_id ` set (songplays_query W songs artists)"
    by (simp add: select_cols a(2))
qed

lemma songplays_query_length:
  assumes "distinct (map songplay_id W)"
  shows "length W \<le> length (songplays_query W songs artists)"
    and "card (sp_songplay_id ` set (songplays_query W songs artists)) = length W"
proof -
  have c: "card (songplay_id ` set W) = length W"
    using assms distinct_card [of "map songplay_id W"] by simp
  then show "card (sp_songplay_id ` set (songplays_query W songs artists)) = length W"
    by (simp add: songplays_query_ids)
  have "distinct (songplays_query W songs artists)"
    by (simp add: songplays_query_def dropDuplicates_def)
  then have "length (songplays_query W songs artists)
             = card (set (songplays_query W songs artists))"
    by (simp add: distinct_card)
  moreover have "card (sp_songplay_id ` set (songplays_query W songs artists))
                 \<le> card (set (songplays_query W songs artists))"
    by (rule card_image_le) simp
  ultimately show "length W \<le> length (songplays_query W songs artists)"
    using c by (simp add: songplays_query_ids)
qed

lemma songplays_query_same_id:
  assumes "distinct (map songplay_id W)"
    and "x \<in> set (songplays_query W songs artists)" "y \<in> set (songplays_query W songs artists)"
    and "sp_songplay_id x = sp_songplay_id y"
  shows "sp_start_time x = sp_start_time y \<and> sp_user_id x = sp_user_id y
     \<and> sp_session_id x = sp_session_id y \<and> sp_location x = sp_location y
     \<and> sp_level x = sp_level y \<and> sp_user_agent x = sp_user_agent y"
proof -
  from assms(2) obtain a b c where x: "a \<in> set W" "x = select_songplay ((a, b), c)"
    unfolding songplays_query_iff by blast
  from assms(3) obtain a' b' c' where y: "a' \<in> set W" "y = select_songplay ((a', b'), c')"
    unfolding songplays_query_iff by blast
  have "inj_on songplay_id (set W)"
    using assms(1) by (simp add: distinct_map)
  moreover have "songplay_id a = songplay_id a'"
    using assms(4) by (simp add: x(2) y(2) select_cols)
  ultimately have "a = a'"
    using x(1) y(1) by (rule inj_onD)
  then show ?thesis
    by (simp add: x(2) y(2) select_cols)
qed

lemma songplays_query_nofan:
  assumes "distinct (map songplay_id W)"
    and "\<forall>a\<in>set W. length (filter (\<lambda>s. sql_eq (song a) (s_title s)) songs) \<le> 1
                  \<and> length (filter (\<lambda>x. sql_eq (artist a) (a_name x)) artists) \<le> 1"
  shows "distinct (map sp_songplay_id (songplays_query W songs artists))"
proof -
  let ?J1 = "left_join (\<lambda>a b. sql_eq (song a) (s_title b)) W songs"
  let ?J2 = "left_join (\<lambda>(a, b) c. sql_eq (artist a) (a_name c)) ?J1 artists"
  have j1: "map fst ?J1 = W"
    using assms(2) by (intro left_join_nofan) simp
  have "\<forall>j\<in>set ?J1. length (filter ((\<lambda>(a, b) c. sql_eq (artist a) (a_name c)) j) artists) \<le> 1"
    using assms(2) by (auto simp: left_join_iff)
  then have j2: "map fst ?J2 = ?J1"
    by (rule left_join_nofan)
  have "map sp_songplay_id (map select_songplay ?J2) = map (songplay_id \<circ> fst) (map fst ?J2)"
    by (simp add: select_songplay_def case_prod_unfold comp_def)
  also have "\<dots> = map songplay_id W"
    by (simp only: j2 map_map [symmetric] j1)
  finally have ids: "map sp_songplay_id (map select_songplay ?J2) = map songplay_id W" .
  with assms(1) have "distinct (map sp_songplay_id (map select_songplay ?J2))"
    by simp
  moreover from this have "distinct (map select_songplay ?J2)"
    using distinct_map by blast
  ultimately show ?thesis
    by (simp add: songplays_query_def dropDuplicates_def distinct_remdups_id)
qed

lemma frame_cols:
  assumes "log_ts.truncate a = with_start_time r"
  shows "userId a = userId r" "sessionId a = sessionId r" "location a = location r"
    "level a = level r" "userAgent a = userAgent r" "song a = song r" "artist a = artist r"
    "start_time a = start_time (with_start_time r)"
proof -
  have "userId a = userId (log_ts.truncate a)" "sessionId a = sessionId (log_ts.truncate a)"
    "location a = location (log_ts.truncate a)" "level a = level (log_ts.truncate a)"
    "userAgent a = userAgent (log_ts.truncate a)" "song a = song (log_ts.truncate a)"
    "artist a = artist (log_ts.truncate a)" "start_time a = start_time (log_ts.truncate a)"
    by (simp_all add: log_id_cols)
  then show "userId a = userId r" "sessionId a = sessionId r" "location a = location r"
    "level a = level r" "userAgent a = userAgent r" "song a = song r" "artist a = artist r"
    "start_time a = start_time (with_start_time r)"
    unfolding assms with_start_time_cols by blast+
qed

lemma songplays_frame:
  assumes "\<forall>p\<in>set log_data. \<forall>r\<in>set (where_NextSong p). udf_ok r"
  shows "\<exists>W. log_songplays log_data songs artists = Inr (songplays_query W songs artists)
     \<and> (length log_data \<le> 2 ^ 31 \<and> (\<forall>p\<in>set log_data. length (where_NextSong p) \<le> 2 ^ 33)
          \<longrightarrow> distinct (map songplay_id W))
     \<and> map log_ts.truncate W = map with_start_time (concat (map where_NextSong log_data))"
proof -
  let ?df = "map where_NextSong log_data"
  let ?parts = "map (map with_start_time) ?df"
  let ?W = "withColumn_songplay_id ?parts"
  have "\<forall>p\<in>set ?df. \<forall>r\<in>set p. udf_ok r"
    using assms by simp
  then have "each_row (each_row withColumn_start_time) ?df = Inr ?parts"
    by (rule frame_start_time_ok)
  then have 1: "log_songplays log_data songs artists = Inr (songplays_query ?W songs artists)"
    by (simp add: log_songplays_def songplays_table_def)
  have 2: "distinct (map songplay_id ?W)"
    if "length log_data \<le> 2 ^ 31" "\<forall>p\<in>set log_data. length (where_NextSong p) \<le> 2 ^ 33"
  proof -
    have "length ?parts \<le> 2 ^ 31"
      using that(1) by simp
    moreover have "\<forall>p\<in>set ?parts. length p \<le> 2 ^ 33"
      using that(2) by simp
    ultimately show ?thesis
      by (rule songplay_ids_distinct)
  qed
  have 3: "map log_ts.truncate ?W = map with_start_time (concat ?df)"
    by (simp only: truncate_songplay_id map_concat)
  from 1 2 3 show ?thesis
    by blast
qed

text \<open>
  The two limits of the engine and the library that the statements below name. Past
  \<open>2^33\<close> rows in a partition the row number runs into the partition bits, and the id
  of row \<open>2^33\<close> of partition 0 is the id of row 0 of partition 1.
\<close>

lemma id_collision:
  "monotonically_increasing_id 0 (2 ^ 33) = monotonically_increasing_id 1 0"
  by (simp add: monotonically_increasing_id_def)

text \<open>
  Claim C4, as stated, fails: a row with \<open>page = 'NextSong'\<close> whose \<open>ts\<close> is one
  millisecond past the range of \<open>pd.to_datetime\<close> makes the udf raise, the job fails and
  no songplays row is produced.
\<close>

theorem outer_join_counterexample:
  "page far_play = Some ''NextSong'' \<and> ts far_play = Some 9223372036855
   \<and> log_songplays [[far_play]] [] [] = Inl OutOfBoundsDatetime"
  by code_simp

text \<open>
  Claim C4, amended. In every run in which the udf raises on no row (every row with
  \<open>page = 'NextSong'\<close> has a null \<open>ts\<close> or one between -9223372036854 and
  9223372036854), the job produces a songplays table in which every row with
  \<open>page = 'NextSong'\<close> has a row carrying its columns, with a null \<open>song_id\<close>
  (\<open>artist_id\<close>) when no song title (artist name) matches. When, in addition, the frame
  has at most \<open>2^31\<close> partitions of at most \<open>2^33\<close> such rows each, the table has at least
  as many rows as there are such log rows.
\<close>

theorem outer_join_complete:
  assumes "\<forall>p\<in>set log_data. \<forall>r\<in>set (where_NextSong p). udf_ok r"
  shows "\<exists>sp. log_songplays log_data song_df artists_df = Inr sp
     \<and> (\<forall>r\<in>set (concat (map where_NextSong log_data)). \<exists>row\<in>set sp.
           Inr (sp_start_time row) = get_timestamp (ts r)
         \<and> sp_user_id row = userId r \<and> sp_session_id row = sessionId r
         \<and> sp_location row = location r \<and> sp_level row = level r
         \<and> sp_user_agent row = userAgent r
         \<and> ((\<forall>s\<in>set song_df. \<not> sql_eq (song r) (s_title s)) \<longrightarrow> sp_song_id row = None)
         \<and> ((\<forall>c\<in>set artists_df. \<not> sql_eq (artist r) (a_name c)) \<longrightarrow> sp_artist_id row = None))
     \<and> (length log_data \<le> 2 ^ 31 \<and> (\<forall>p\<in>set log_data. length (where_NextSong p) \<le> 2 ^ 33)
          \<longrightarrow> length (concat (map where_NextSong log_data)) \<le> length sp)"
proof -
  let ?rows = "concat (map where_NextSong log_data)"
  from songplays_frame [OF assms] obtain W where
    run: "log_songplays log_data song_df artists_df = Inr (songplays_query W song_df artists_df)"
    and ids: "length log_data \<le> 2 ^ 31 \<and> (\<forall>p\<in>set log_data. length (where_NextSong p) \<le> 2 ^ 33)
          \<longrightarrow> distinct (map songplay_id W)"
    and tr: "map log_ts.truncate W = map with_start_time ?rows"
    by blast
  let ?sp = "songplays_query W song_df artists_df"
  have "length W = length ?rows"
    using arg_cong [OF tr, of length] by simp
  then have len: "length ?rows \<le> length ?sp" if "distinct (map songplay_id W)"
    using songplays_query_length(1) [OF that, of song_df artists_df] by simp
  have row: "\<exists>row\<in>set ?sp.
           Inr (sp_start_time row) = get_timestamp (ts r)
         \<and> sp_user_id row = userId r \<and> sp_session_id row = sessionId r
         \<and> sp_location row = location r \<and> sp_level row = level r
         \<and> sp_user_agent row = userAgent r
         \<and> ((\<forall>s\<in>set song_df. \<not> sql_eq (song r) (s_title s)) \<longrightarrow> sp_song_id row = None)
         \<and> ((\<forall>c\<in>set artists_df. \<not> sql_eq (artist r) (a_name c)) \<longrightarrow> sp_artist_id row = None)"
    if r: "r \<in> set ?rows" for r
  proof -
    from r have ok: "udf_ok r"
      using assms by auto
    from r have "with_start_time r \<in> set (map log_ts.truncate W)"
      by (simp only: tr set_map imageI)
    then obtain a where a: "a \<in> set W" "log_ts.truncate a = with_start_time r"
      by auto
    note cols = frame_cols [OF a(2)]
    from songplays_query_row [OF a(1), of song_df artists_df] obtain b c where
      bc: "select_songplay ((a, b), c) \<in> set ?sp"
        "(\<forall>s\<in>set song_df. \<not> sql_eq (song a) (s_title s)) \<longrightarrow> b = None"
        "(\<forall>x\<in>set artists_df. \<not> sql_eq (artist a) (a_name x)) \<longrightarrow> c = None"
      by blast
    have "Inr (sp_start_time (select_songplay ((a, b), c))) = get_timestamp (ts r)"
      by (simp add: select_cols cols start_time_with [OF ok])
    moreover have "(\<forall>s\<in>set song_df. \<not> sql_eq (song r) (s_title s))
        \<longrightarrow> sp_song_id (select_songplay ((a, b), c)) = None"
      using bc(2) by (auto simp: select_cols cols)
    moreover have "(\<forall>x\<in>set artists_df. \<not> sql_eq (artist r) (a_name x))
        \<longrightarrow> sp_artist_id (select_songplay ((a, b), c)) = None"
      using bc(3) by (auto simp: select_cols cols)
    ultimately show ?thesis
      using bc(1) by (intro bexI [of _ "select_songplay ((a, b), c)"]) (simp_all add: select_cols cols)
  qed
  from run ids len row show ?thesis
    by blast
qed

text \<open>
  Claim C2, amended. The id is assigned to the log rows before the joins, so it is unique
  per log row, not per songplays row. In every run in which the udf raises on no row
  (every row with \<open>page = 'NextSong'\<close> has a null \<open>ts\<close> or one between -9223372036854 and
  9223372036854) and the frame has at most \<open>2^31\<close> partitions of at most \<open>2^33\<close> such
  rows each: the job produces a songplays table; there are as many different ids in it
  as log rows with \<open>page = 'NextSong'\<close>; two songplays rows with the same id agree in
  every column taken from the log row; and the ids are pairwise distinct over the whole
  table when every such log row matches at most one row of the song table and at most
  one row of the artist table.
\<close>

theorem songplay_id_per_record:
  assumes "length log_data \<le> 2 ^ 31"
    and "\<forall>p\<in>set log_data. length (where_NextSong p) \<le> 2 ^ 33"
    and "\<forall>p\<in>set log_data. \<forall>r\<in>set (where_NextSong p). udf_ok r"
  shows "\<exists>sp. log_songplays log_data song_df artists_df = Inr sp
     \<and> card (sp_songplay_id ` set sp) = length (concat (map where_NextSong log_data))
     \<and> (\<forall>x\<in>set sp. \<forall>y\<in>set sp. sp_songplay_id x = sp_songplay_id y \<longrightarrow>
           sp_start_time x = sp_start_time y \<and> sp_user_id x = sp_user_id y
         \<and> sp_session_id x = sp_session_id y \<and> sp_location x = sp_location y
         \<and> sp_level x = sp_level y \<and> sp_user_agent x = sp_user_agent y)
     \<and> ((\<forall>r\<in>set (concat (map where_NextSong log_data)).
            length (filter (\<lambda>s. sql_eq (song r) (s_title s)) song_df) \<le> 1
          \<and> length (filter (\<lambda>c. sql_eq (artist r) (a_name c)) artists_df) \<le> 1)
        \<longrightarrow> distinct (map sp_songplay_id sp))"
proof -
  let ?rows = "concat (map where_NextSong log_data)"
  from songplays_frame [OF assms(3)] assms(1,2) obtain W where
    run: "log_songplays log_data song_df artists_df = Inr (songplays_query W song_df artists_df)"
    and ids: "distinct (map songplay_id W)"
    and tr: "map log_ts.truncate W = map with_start_time ?rows"
    by blast
  let ?sp = "songplays_query W song_df artists_df"
  have "length W = length ?rows"
    using arg_cong [OF tr, of length] by simp
  then have card: "card (sp_songplay_id ` set ?sp) = length ?rows"
    using songplays_query_length(2) [OF ids, of song_df artists_df] by simp
  have same: "\<forall>x\<in>set ?sp. \<forall>y\<in>set ?sp. sp_songplay_id x = sp_songplay_id y \<longrightarrow>
           sp_start_time x = sp_start_time y \<and> sp_user_id x = sp_user_id y
         \<and> sp_session_id x = sp_session_id y \<and> sp_location x = sp_location y
         \<and> sp_level x = sp_level y \<and> sp_user_agent x = sp_user_agent y"
    using songplays_query_same_id [OF ids] by blast
  have nofan: "distinct (map sp_songplay_id ?sp)"
    if h: "\<forall>r\<in>set ?rows.
            length (filter (\<lambda>s. sql_eq (song r) (s_title s)) song_df) \<le> 1
          \<and> length (filter (\<lambda>c. sql_eq (artist r) (a_name c)) artists_df) \<le> 1"
  proof -
    have "length (filter (\<lambda>s. sql_eq (song a) (s_title s)) song_df) \<le> 1
          \<and> length (filter (\<lambda>c. sql_eq (artist a) (a_name c)) artists_df) \<le> 1"
      if "a \<in> set W" for a
    proof -
      from that have "log_ts.truncate a \<in> set (map with_start_time ?rows)"
        by (simp only: tr [symmetric] set_map imageI)
      then obtain r where r: "r \<in> set ?rows" "log_ts.truncate a = with_start_time r"
        by auto
      from h r(1) show ?thesis
        by (simp only: frame_cols [OF r(2)])
    qed
    then show ?thesis
      by (intro songplays_query_nofan [OF ids]) blast
  qed
  from run card same nofan show ?thesis
    by blast
qed

lemma eval_fan1:
  "main_songplays fan_songs fan_log = Inr fan_rows"
  by code_simp

lemma eval_fan2:
  "map sp_songplay_id fan_rows = [0, 0, 8589934592]"
  "map sp_song_id fan_rows = [Some ''S1'', Some ''S2'', None]"
  "map sp_artist_id fan_rows = [Some ''AR1'', Some ''AR1'', None]"
  by (simp_all add: fan_rows_def play_row_def)

lemma eval_fan3:
  "concat (map where_NextSong fan_log) = [fan_play, miss_play]"
  by code_simp

lemma fan_plays:
  "where_NextSong [fan_play] = [fan_play]"
  "where_NextSong [miss_play, null_log] = [miss_play]"
  "ts fan_play = Some 100" "ts miss_play = Some 200"
  by (simp_all add: where_NextSong_def fan_play_def miss_play_def next_song_simps next_song_def null_log_def)

lemma fan_log_ok:
  "length fan_log \<le> 2 ^ 31"
  "\<forall>p\<in>set fan_log. length (where_NextSong p) \<le> 2 ^ 33"
  "\<forall>p\<in>set fan_log. \<forall>r\<in>set (where_NextSong p). udf_ok r"
  by (simp_all add: fan_log_def fan_plays udf_ok_def)

lemma fan_run:
  "log_songplays fan_log (songs_table fan_songs) (artists_table fan_songs) = Inr fan_rows"
  using eval_fan1 by (simp only: main_songplays_def)

text \<open>
  Claim C2, as stated, fails: two songs with the same title fan one log row out into two
  songplays rows, and both carry the id of that log row.
\<close>

theorem songplay_id_counterexample:
  "main_songplays fan_songs fan_log = Inr fan_rows
   \<and> \<not> distinct (map sp_songplay_id fan_rows)"
  by (simp add: eval_fan1 eval_fan2)

theorem songplay_id_per_record_witness:
  "length fan_log \<le> 2 ^ 31
   \<and> log_songplays fan_log (songs_table fan_songs) (artists_table fan_songs) = Inr fan_rows
   \<and> length (concat (map where_NextSong fan_log)) = 2
   \<and> card (sp_songplay_id ` set fan_rows) = 2
   \<and> (\<exists>sp. log_songplays fan_log [] [] = Inr sp \<and> distinct (map sp_songplay_id sp))"
proof -
  from songplay_id_per_record [OF fan_log_ok, of "songs_table fan_songs" "artists_table fan_songs"]
  obtain sp where "log_songplays fan_log (songs_table fan_songs) (artists_table fan_songs) = Inr sp"
    and "card (sp_songplay_id ` set sp) = length (concat (map where_NextSong fan_log))"
    by blast
  then have "card (sp_songplay_id ` set fan_rows) = length (concat (map where_NextSong fan_log))"
    by (simp add: fan_run)
  moreover have "length (concat (map where_NextSong fan_log)) = 2"
    by (simp only: eval_fan3) simp
  moreover have "\<exists>sp. log_songplays fan_log [] [] = Inr sp \<and> distinct (map sp_songplay_id sp)"
    using songplay_id_per_record [OF fan_log_ok, of "[]" "[]"] by auto
  ultimately show ?thesis
    using fan_log_ok(1) fan_run by (simp only: simp_thms)
qed

theorem outer_join_complete_witness:
  "length fan_log \<le> 2 ^ 31
   \<and> log_songplays fan_log (songs_table fan_songs) (artists_table fan_songs) = Inr fan_rows
   \<and> length (concat (map where_NextSong fan_log)) \<le> length fan_rows
   \<and> map sp_song_id fan_rows = [Some ''S1'', Some ''S2'', None]
   \<and> map sp_artist_id fan_rows = [Some ''AR1'', Some ''AR1'', None]"
proof -
  from outer_join_complete [OF fan_log_ok(3), of "songs_table fan_songs" "artists_table fan_songs"]
    fan_log_ok(1,2)
  obtain sp where "log_songplays fan_log (songs_table fan_songs) (artists_table fan_songs) = Inr sp"
    and "length (concat (map where_NextSong fan_log)) \<le> length sp"
    by blast
  then have "length (concat (map where_NextSong fan_log)) \<le> length fan_rows"
    by (simp add: fan_run)
  then show ?thesis
    using fan_log_ok(1) fan_run eval_fan2 by (simp only: simp_thms)
qed

text \<open>When the udf raises on some row, the job writes no songplays table.\<close>

lemma each_row_fails: "x \<in> set xs \<Longrightarrow> isl (f x) \<Longrightarrow> isl (each_row f xs)"
  by (induction xs) (auto split: sum.splits)

lemma udf_failure:
  assumes "r \<in> set p" "p \<in> set df" "\<not> udf_ok r"
  shows "songplays_table df song_df artists_df = Inl OutOfBoundsDatetime"
proof -
  have "isl (withColumn_start_time r)"
    using assms(3)
    by (auto simp: udf_ok_def withColumn_start_time_def get_timestamp_def to_datetime_def
        split: option.splits)
  with assms(1) have "isl (each_row withColumn_start_time p)"
    by (rule each_row_fails)
  with assms(2) have "isl (each_row (each_row withColumn_start_time) df)"
    by (rule each_row_fails)
  then obtain e where "each_row (each_row withColumn_start_time) df = Inl e"
    by (cases "each_row (each_row withColumn_start_time) df") simp_all
  moreover have "e = OutOfBoundsDatetime"
    by (cases e) simp
  ultimately show ?thesis
    by (simp add: songplays_table_def)
qed

end
